theory Spec2Isabelle
  imports Complex_Main
begin

section \<open>Hybrid OCR dispatch (the OCR module)\<close>

text \<open>
  The OCR module is an object with two mutable fields that matter here, \<open>isOnline\<close>
  and the global \<open>Tesseract\<close> (defined once the engine script has run). Every
  asynchronous function is modelled in state-passing style: it takes the state before
  the call and returns the settled value of its promise (\<open>Inl\<close> a rejection,
  \<open>Inr\<close> a fulfilment) with the state afterwards. The state also keeps a
  chronological log of the calls made and of the texts handed to the progress callback.
\<close>

subsection \<open>Errors, progress texts, events\<close>

datatype js_error =
    ImageLoadFailed              \<comment> \<open>\<^verbatim>\<open>new Error('Failed to load image')\<close>, from \<open>img.onerror\<close>\<close>
  | ProcessingFailed             \<comment> \<open>\<^verbatim>\<open>new Error('Processing failed')\<close>, \<open>toBlob\<close> gave null\<close>
  | RequestTimedOut              \<comment> \<open>\<^verbatim>\<open>new Error('Request timed out')\<close>, the 30000 ms abort\<close>
  | FetchRejected                \<comment> \<open>the rejection of \<open>fetch\<close> itself, rethrown as it is\<close>
  | HttpError nat                \<comment> \<open>\<^verbatim>\<open>new Error(`HTTP ${response.status}`)\<close>\<close>
  | JsonRejected                 \<comment> \<open>the rejection of \<open>response.json()\<close>, rethrown as it is\<close>
  | OcrServiceError string       \<comment> \<open>\<^verbatim>\<open>new Error(data.ErrorMessage || 'OCR failed')\<close>\<close>
  | TesseractLoadFailed          \<comment> \<open>\<^verbatim>\<open>new Error('Failed to load Tesseract.js')\<close>\<close>
  | RecognizeRejected string     \<comment> \<open>whatever \<open>Tesseract.recognize\<close> rejects with\<close>
  | OfflineOcrFailed js_error    \<comment> \<open>\<^verbatim>\<open>new Error('Offline OCR failed: ' + err.message)\<close>\<close>

datatype progress_text =
    TxtEnhancing                 \<comment> \<open>\<^verbatim>\<open>'Enhancing image...'\<close>\<close>
  | TxtSending                   \<comment> \<open>\<^verbatim>\<open>'Sending to OCR...'\<close>\<close>
  | TxtDone                      \<comment> \<open>\<^verbatim>\<open>'Done!'\<close>\<close>
  | TxtOnlineFailed              \<comment> \<open>\<^verbatim>\<open>'Online failed, using offline OCR...'\<close>\<close>
  | TxtOfflineMode               \<comment> \<open>\<^verbatim>\<open>'Offline mode - using local OCR...'\<close>\<close>
  | TxtLoadingEngine             \<comment> \<open>\<^verbatim>\<open>'Loading offline OCR engine...'\<close>\<close>
  | TxtProcessingOffline         \<comment> \<open>\<^verbatim>\<open>'Processing image offline...'\<close>\<close>
  | TxtPercent nat               \<comment> \<open>\<^verbatim>\<open>`Processing... ${progress}%`\<close>\<close>
  | TxtDoneOffline               \<comment> \<open>\<^verbatim>\<open>'Done! (Offline)'\<close>\<close>

datatype event =
    Progress progress_text       \<comment> \<open>one invocation of the caller's \<open>onProgress\<close>\<close>
  | CallProcessOnline            \<comment> \<open>\<open>processOnline\<close> entered (the remote path)\<close>
  | CallProcessOffline           \<comment> \<open>\<open>processOffline\<close> entered (the local path)\<close>
  | CallEnhanceImage             \<comment> \<open>\<open>enhanceImage\<close> entered\<close>
  | CallFetch                    \<comment> \<open>the POST to \<open>API_URL\<close>\<close>
  | ScriptAppended               \<comment> \<open>a script element for tesseract.min.js appended to the page\<close>
  | CallRecognize                \<comment> \<open>\<open>Tesseract.recognize\<close> called\<close>

record ocr_state =
  isOnline :: bool
  tesseractDefined :: bool       \<comment> \<open>\<^verbatim>\<open>typeof Tesseract !== 'undefined'\<close>\<close>
  events :: "event list"

subsection \<open>What the surroundings answer during one dispatch\<close>

record ocr_json =
  IsErroredOnProcessing :: bool
  ErrorMessage :: "string option"
  ParsedText :: "string option"  \<comment> \<open>\<^verbatim>\<open>data.ParsedResults?.[0]?.ParsedText\<close>\<close>

datatype fetch_result =
    Aborted                      \<comment> \<open>no response within 30000 ms: the controller aborts, an AbortError\<close>
  | NetworkFailure               \<comment> \<open>\<open>fetch\<close> rejects for another reason\<close>
  | Responded nat "ocr_json option"  \<comment> \<open>status, and the body when it parses as JSON\<close>

datatype recognize_result =
    Recognized "nat list" string     \<comment> \<open>the rounded percentages logged, then \<open>result.data.text\<close>\<close>
  | RecognizeThrows "nat list" string

record dispatch =
  navigator_onLine :: bool
  onProgress :: bool             \<comment> \<open>whether the caller passed a progress callback\<close>
  raster :: "nat list option"    \<comment> \<open>the RGBA bytes on the canvas after \<open>drawImage\<close>; None when the file does not decode\<close>
  encodes :: bool                \<comment> \<open>whether \<open>canvas.toBlob\<close> yields a blob\<close>
  api_reply :: fetch_result
  script_loads :: bool           \<comment> \<open>\<open>script.onload\<close> rather than \<open>script.onerror\<close>\<close>
  recognition :: recognize_result

definition emit :: "event \<Rightarrow> ocr_state \<Rightarrow> ocr_state" where
  "emit e s = s\<lparr>events := events s @ [e]\<rparr>"

definition report :: "dispatch \<Rightarrow> progress_text \<Rightarrow> ocr_state \<Rightarrow> ocr_state" where
  \<comment> \<open>\<^verbatim>\<open>onProgress && onProgress(text)\<close>\<close>
  "report d t s = (if onProgress d then emit (Progress t) s else s)"

definition response_ok :: "nat \<Rightarrow> bool" where
  "response_ok status = (200 \<le> status \<and> status \<le> 299)"

subsection \<open>applyEnhancements\<close>

text \<open>
  \<open>imageData.data\<close> is a Uint8ClampedArray of RGBA bytes, four per pixel, so its
  length is a multiple of four and the reads at \<open>i + 1\<close> and \<open>i + 2\<close> are in
  range whenever \<open>i\<close> is. A byte is a natural number. JavaScript numbers are taken
  as exact rationals: in the channel formula every exact value is a multiple of 1/10
  below 512, and the doubles computed for it round to the same byte. The sum of the
  luminances is exact here too; the sum of doubles can differ from it in the last
  bits, which decides the offset only for a mean within that distance of 128. A store
  into the array converts the number to a byte: clamped to 0..255 and rounded to the
  nearest integer, ties to the even one. A write past the end of the array is ignored,
  as \<open>list_update\<close> does. The assignment to \<open>ctx.filter\<close> after
  \<open>putImageData\<close> changes no pixel.
\<close>

definition toUint8Clamped :: "rat \<Rightarrow> nat" where
  "toUint8Clamped x =
     (if x \<le> 0 then 0
      else if 255 \<le> x then 255
      else let f = \<lfloor>x\<rfloor>; r = x - of_int f
           in if r < 1 / 2 then nat f
              else if 1 / 2 < r then nat (f + 1)
              else if even f then nat f else nat (f + 1))"

definition contrast :: rat where
  "contrast = 13 / 10"

definition enhanceChannel :: "rat \<Rightarrow> nat \<Rightarrow> rat" where
  \<comment> \<open>\<^verbatim>\<open>Math.min(255, Math.max(0, ((data[i] - 128) * contrast) + 128 + brightnessFactor))\<close>\<close>
  "enhanceChannel bf v = min 255 (max 0 (((of_nat v - 128) * contrast) + 128 + bf))"

function brightnessLoop :: "nat list \<Rightarrow> nat \<Rightarrow> rat \<Rightarrow> rat" where
  "brightnessLoop data i totalBrightness =
     (if i < length data
      then brightnessLoop data (i + 4)
             (totalBrightness + of_nat (data ! i + data ! (i + 1) + data ! (i + 2)) / 3)
      else totalBrightness)"
  by pat_completeness auto
termination
  by (relation "measure (\<lambda>(data, i, totalBrightness). length data - i)") auto

declare brightnessLoop.simps [simp del]

definition avgBrightness :: "nat list \<Rightarrow> rat option" where
  \<comment> \<open>\<^verbatim>\<open>totalBrightness / (data.length / 4)\<close>; None is NaN, the value of 0 / 0\<close>
  "avgBrightness data =
     (if length data = 0 then None
      else Some (brightnessLoop data 0 0 / (of_nat (length data) / 4)))"

definition brightnessFactor :: "nat list \<Rightarrow> rat" where
  \<comment> \<open>\<^verbatim>\<open>avgBrightness < 128 ? 20 : 0\<close>; a comparison with NaN is false\<close>
  "brightnessFactor data =
     (case avgBrightness data of None \<Rightarrow> 0 | Some a \<Rightarrow> if a < 128 then 20 else 0)"

function enhanceLoop :: "rat \<Rightarrow> nat list \<Rightarrow> nat \<Rightarrow> nat list" where
  "enhanceLoop bf data i =
     (if i < length data
      then enhanceLoop bf
             (data[i := toUint8Clamped (enhanceChannel bf (data ! i)),
                   i + 1 := toUint8Clamped (enhanceChannel bf (data ! (i + 1))),
                   i + 2 := toUint8Clamped (enhanceChannel bf (data ! (i + 2)))])
             (i + 4)
      else data)"
  by pat_completeness auto
termination
  by (relation "measure (\<lambda>(bf, data, i). length data - i)") auto

declare enhanceLoop.simps [simp del]

definition applyEnhancements :: "nat list \<Rightarrow> nat list" where
  "applyEnhancements data = enhanceLoop (brightnessFactor data) data 0"



subsection \<open>enhanceImage, loadTesseract, processOnline, processOffline, process\<close>

text \<open>
  \<open>enhanceImage\<close> decodes the file (\<open>img.onload\<close> or \<open>img.onerror\<close>),
  draws it on a canvas at most 1400 pixels wide, rewrites the canvas with
  \<open>applyEnhancements\<close> and encodes it with \<open>toBlob\<close> as JPEG, which yields a
  blob or null. The dispatch says what the browser does with the file: the raster on
  the canvas after \<open>drawImage\<close>, and whether the encoding yields a blob. The blob
  is stood for by the enhanced raster.
\<close>

definition enhanceImage :: "dispatch \<Rightarrow> ocr_state \<Rightarrow> (js_error + nat list) \<times> ocr_state" where
  "enhanceImage d s =
     (let s1 = emit CallEnhanceImage s
      in case raster d of
           None \<Rightarrow> (Inl ImageLoadFailed, s1)
         | Some data \<Rightarrow>
             if encodes d then (Inr (applyEnhancements data), s1)
             else (Inl ProcessingFailed, s1))"

definition loadTesseract :: "dispatch \<Rightarrow> ocr_state \<Rightarrow> (js_error + unit) \<times> ocr_state" where
  "loadTesseract d s =
     (if tesseractDefined s then (Inr (), s)
      else let s1 = emit ScriptAppended s
           in if script_loads d then (Inr (), s1\<lparr>tesseractDefined := True\<rparr>)
              else (Inl TesseractLoadFailed, s1))"

definition parsedText :: "ocr_json \<Rightarrow> string" where
  \<comment> \<open>\<^verbatim>\<open>data.ParsedResults?.[0]?.ParsedText || ''\<close>\<close>
  "parsedText data = (case ParsedText data of None \<Rightarrow> [] | Some t \<Rightarrow> t)"

definition serviceMessage :: "ocr_json \<Rightarrow> string" where
  \<comment> \<open>\<^verbatim>\<open>data.ErrorMessage || 'OCR failed'\<close>: an empty message is falsy too\<close>
  "serviceMessage data =
     (case ErrorMessage data of
        None \<Rightarrow> ''OCR failed''
      | Some m \<Rightarrow> if m = [] then ''OCR failed'' else m)"

definition processOnline :: "dispatch \<Rightarrow> ocr_state \<Rightarrow> (js_error + string) \<times> ocr_state" where
  "processOnline d s0 =
     (let s1 = report d TxtEnhancing (emit CallProcessOnline s0)
      in case enhanceImage d s1 of
           (Inl e, s2) \<Rightarrow> (Inl e, s2)
         | (Inr enhanced, s2) \<Rightarrow>
             (let s3 = emit CallFetch (report d TxtSending s2)
              in case api_reply d of
                   Aborted \<Rightarrow> (Inl RequestTimedOut, s3)
                 | NetworkFailure \<Rightarrow> (Inl FetchRejected, s3)
                 | Responded status body \<Rightarrow>
                     (if \<not> response_ok status then (Inl (HttpError status), s3)
                      else (case body of
                              None \<Rightarrow> (Inl JsonRejected, s3)
                            | Some data \<Rightarrow>
                                (if IsErroredOnProcessing data
                                 then (Inl (OcrServiceError (serviceMessage data)), s3)
                                 else (Inr (parsedText data), report d TxtDone s3))))))"

definition logProgress :: "dispatch \<Rightarrow> nat list \<Rightarrow> ocr_state \<Rightarrow> ocr_state" where
  \<comment> \<open>the \<open>logger\<close> option: one progress text per 'recognizing text' message\<close>
  "logProgress d ps s = fold (\<lambda>p. report d (TxtPercent p)) ps s"

definition processOffline :: "dispatch \<Rightarrow> ocr_state \<Rightarrow> (js_error + string) \<times> ocr_state" where
  "processOffline d s0 =
     (let s1 = report d TxtLoadingEngine (emit CallProcessOffline s0)
      in case (if \<not> tesseractDefined s1 then loadTesseract d s1 else (Inr (), s1)) of
           (Inl e, s2) \<Rightarrow> (Inl e, s2)
         | (Inr u, s2) \<Rightarrow>
             (let s3 = report d TxtProcessingOffline s2
              in case enhanceImage d s3 of
                   (Inl e, s4) \<Rightarrow> (Inl (OfflineOcrFailed e), s4)
                 | (Inr enhanced, s4) \<Rightarrow>
                     (let s5 = emit CallRecognize s4
                      in case recognition d of
                           RecognizeThrows ps m \<Rightarrow>
                             (Inl (OfflineOcrFailed (RecognizeRejected m)), logProgress d ps s5)
                         | Recognized ps text \<Rightarrow>
                             (Inr text, report d TxtDoneOffline (logProgress d ps s5)))))"

definition process :: "dispatch \<Rightarrow> ocr_state \<Rightarrow> (js_error + string) \<times> ocr_state" where
  "process d s0 =
     (let s = s0\<lparr>isOnline := navigator_onLine d\<rparr>
      in if isOnline s
         then (case processOnline d s of
                 (Inr text, s1) \<Rightarrow> (Inr text, s1)
               | (Inl err, s1) \<Rightarrow> processOffline d (report d TxtOnlineFailed s1))
         else processOffline d (report d TxtOfflineMode s))"

definition calls :: "event \<Rightarrow> ocr_state \<Rightarrow> nat" where
  "calls e s = count_list (events s) e"

subsection \<open>The loader under interleaved callers\<close>

text \<open>
  Callers of \<open>processOffline\<close> interleave at its awaits. What matters for the
  engine script is the order of three kinds of steps: a caller runs the check
  \<^verbatim>\<open>typeof Tesseract === 'undefined'\<close> and, when it holds, the executor of
  \<open>loadTesseract\<close> (which checks again and appends a script element); the
  \<open>onload\<close> of a script, after which Tesseract is defined; the \<open>onerror\<close>
  of a script.
\<close>

datatype loader_event =
    CallerEnters                 \<comment> \<open>a caller reaches the engine check of \<open>processOffline\<close>\<close>
  | ScriptLoaded                 \<comment> \<open>\<open>script.onload\<close>\<close>
  | ScriptFailed                 \<comment> \<open>\<open>script.onerror\<close>\<close>

definition loadTesseract_begin :: "ocr_state \<Rightarrow> ocr_state" where
  \<comment> \<open>the executor of the promise of \<open>loadTesseract\<close>, run when it is called\<close>
  "loadTesseract_begin s = (if tesseractDefined s then s else emit ScriptAppended s)"

fun loader_step :: "loader_event \<Rightarrow> ocr_state \<Rightarrow> ocr_state" where
  "loader_step CallerEnters s = (if \<not> tesseractDefined s then loadTesseract_begin s else s)"
| "loader_step ScriptLoaded s = s\<lparr>tesseractDefined := True\<rparr>"
| "loader_step ScriptFailed s = s"

definition loader_run :: "loader_event list \<Rightarrow> ocr_state \<Rightarrow> ocr_state" where
  "loader_run evs s = fold loader_step evs s"

text \<open>Classifiers used to state the properties, and a sample dispatch and state.\<close>

fun is_progress :: "event \<Rightarrow> bool" where
  "is_progress (Progress t) = True"
| "is_progress e = False"


definition idle :: ocr_state where
  "idle = \<lparr>isOnline = True, tesseractDefined = False, events = []\<rparr>"

definition label_photo :: dispatch where
  "label_photo =
     \<lparr>navigator_onLine = True, onProgress = True, raster = Some [10, 20, 30, 255],
      encodes = True,
      api_reply = Responded 200
        (Some \<lparr>IsErroredOnProcessing = False, ErrorMessage = None, ParsedText = Some ''LOT 42''\<rparr>),
      script_loads = True, recognition = Recognized [50, 100] ''LOT 42''\<rparr>"

section \<open>The service worker (ResourceCache)\<close>

text \<open>
  CacheStorage is the list of named caches in the order of their creation (the order
  \<open>caches.match\<close> searches them in); a cache maps the URL of a GET request to the
  response stored for it. The network is a function from a URL to the response fetched,
  None when the fetch rejects. The handlers take the worker's \<open>CACHE_NAME\<close> as a
  parameter: a release of the worker differs from the one before in this constant.
  A promise that rejects is the value None (for \<open>cache.add\<close>, \<open>cache.addAll\<close>)
  or False (for the promise given to \<open>event.waitUntil\<close> by the install handler).
\<close>

record response =
  resp_status :: nat
  resp_body :: string

type_synonym cache = "string \<rightharpoonup> response"
type_synonym cache_storage = "(string \<times> cache) list"
type_synonym network = "string \<Rightarrow> response option"

definition CACHE_NAME :: string where
  "CACHE_NAME = ''label-scanner-v6''"

definition CACHE_URLS :: "string list" where
  "CACHE_URLS = [''./'', ''./index.html'', ''./css/styles.css'', ''./js/app.js'',
     ''./js/storage.js'', ''./js/parser.js'', ''./js/ocr.js'', ''./manifest.json'']"

definition TESSERACT_URLS :: "string list" where
  "TESSERACT_URLS =
     [''https://cdn.jsdelivr.net/npm/tesseract.js@5/dist/tesseract.min.js'',
      ''https://cdn.jsdelivr.net/npm/tesseract.js@5/dist/worker.min.js'']"

text \<open>The Cache API, as far as the worker uses it.\<close>

definition caches_keys :: "cache_storage \<Rightarrow> string list" where
  "caches_keys cs = map fst cs"

definition caches_open :: "string \<Rightarrow> cache_storage \<Rightarrow> cache_storage" where
  \<comment> \<open>\<open>caches.open(name)\<close> creates the cache when there is none of that name\<close>
  "caches_open name cs = (if name \<in> set (caches_keys cs) then cs else cs @ [(name, Map.empty)])"

definition caches_delete :: "string \<Rightarrow> cache_storage \<Rightarrow> cache_storage" where
  "caches_delete name cs = filter (\<lambda>(n, c). n \<noteq> name) cs"

fun caches_match :: "string \<Rightarrow> cache_storage \<Rightarrow> response option" where
  "caches_match url [] = None"
| "caches_match url ((n, c) # cs) =
     (case c url of Some r \<Rightarrow> Some r | None \<Rightarrow> caches_match url cs)"

definition cache_put :: "string \<Rightarrow> string \<Rightarrow> response \<Rightarrow> cache_storage \<Rightarrow> cache_storage" where
  "cache_put name url r cs = map (\<lambda>(n, c). if n = name then (n, c(url \<mapsto> r)) else (n, c)) cs"

definition cache_lookup :: "string \<Rightarrow> string \<Rightarrow> cache_storage \<Rightarrow> response option" where
  "cache_lookup name url cs = (case map_of cs name of None \<Rightarrow> None | Some c \<Rightarrow> c url)"

definition fetch_ok :: "network \<Rightarrow> string \<Rightarrow> response option" where
  \<comment> \<open>the fetch of \<open>cache.add\<close> and \<open>cache.addAll\<close>: a response that is not ok is a TypeError\<close>
  "fetch_ok net url =
     (case net url of
        None \<Rightarrow> None
      | Some r \<Rightarrow> if response_ok (resp_status r) then Some r else None)"

definition cache_add :: "network \<Rightarrow> string \<Rightarrow> string \<Rightarrow> cache_storage \<Rightarrow> cache_storage option" where
  "cache_add net name url cs =
     (case fetch_ok net url of None \<Rightarrow> None | Some r \<Rightarrow> Some (cache_put name url r cs))"

fun fetch_all :: "network \<Rightarrow> string list \<Rightarrow> (string \<times> response) list option" where
  "fetch_all net [] = Some []"
| "fetch_all net (url # urls) =
     (case fetch_ok net url of
        None \<Rightarrow> None
      | Some r \<Rightarrow> (case fetch_all net urls of None \<Rightarrow> None | Some rs \<Rightarrow> Some ((url, r) # rs)))"

text \<open>
  \<open>cache.addAll\<close> stores nothing unless every request was fetched with an ok
  response.
\<close>

definition cache_addAll :: "network \<Rightarrow> string \<Rightarrow> string list \<Rightarrow> cache_storage \<Rightarrow> cache_storage option" where
  "cache_addAll net name urls cs =
     (case fetch_all net urls of
        None \<Rightarrow> None
      | Some rs \<Rightarrow> Some (fold (\<lambda>(url, r). cache_put name url r) rs cs))"

text \<open>
  One promise of \<^verbatim>\<open>Promise.allSettled(TESSERACT_URLS.map(url => cache.add(url)))\<close>: a
  rejection is kept in the settled result and goes no further.
\<close>

definition add_settled :: "network \<Rightarrow> string \<Rightarrow> string \<Rightarrow> cache_storage \<Rightarrow> cache_storage" where
  "add_settled net name url cs = (case cache_add net name url cs of None \<Rightarrow> cs | Some cs' \<Rightarrow> cs')"

definition install_handler :: "string \<Rightarrow> network \<Rightarrow> cache_storage \<Rightarrow> bool \<times> cache_storage" where
  "install_handler name net cs =
     (let cs1 = caches_open name cs
      in case cache_addAll net name CACHE_URLS cs1 of
           None \<Rightarrow> (False, cs1)
         | Some cs2 \<Rightarrow> (True, fold (add_settled net name) TESSERACT_URLS (caches_open name cs2)))"

text \<open>
  \<^verbatim>\<open>keys.filter(key => key !== CACHE_NAME).map(key => caches.delete(key))\<close>;
  \<open>clients.claim\<close> changes no cache.
\<close>

definition activate_handler :: "string \<Rightarrow> cache_storage \<Rightarrow> cache_storage" where
  "activate_handler name cs = fold caches_delete (filter (\<lambda>key. key \<noteq> name) (caches_keys cs)) cs"

record request =
  req_method :: string
  req_url :: string
  same_origin :: bool




text \<open>
  The browser's part of the life cycle: a new worker is installed; when its install
  promise fulfils, \<open>skipWaiting\<close> having been called, it is activated and becomes
  the active worker; when the promise rejects, the new worker is dropped and the active
  one stays. \<open>active\<close> is the \<open>CACHE_NAME\<close> of the active worker.
\<close>

record registration =
  storage :: cache_storage
  active :: "string option"

definition update_worker :: "string \<Rightarrow> network \<Rightarrow> registration \<Rightarrow> registration" where
  "update_worker name net w =
     (case install_handler name net (storage w) of
        (installed, cs) \<Rightarrow>
          if installed then \<lparr>storage = activate_handler name cs, active = Some name\<rparr>
          else w\<lparr>storage := cs\<rparr>)"

text \<open>Sample networks, a registration and a request.\<close>

definition all_up :: network where
  "all_up url = Some \<lparr>resp_status = 200, resp_body = url\<rparr>"




definition release_v5 :: registration where
  "release_v5 =
     \<lparr>storage = [(''label-scanner-v5'', [''./'' \<mapsto> \<lparr>resp_status = 200, resp_body = ''v5 shell''\<rparr>])],
      active = Some ''label-scanner-v5''\<rparr>"

definition get_request :: "string \<Rightarrow> request" where
  "get_request url = \<lparr>req_method = ''GET'', req_url = url, same_origin = True\<rparr>"

section \<open>Batch processing (App.handleBatchFiles)\<close>

text \<open>
  A file of the batch comes with what its processing meets: whether
  \<open>fileToDataUrl\<close> resolves, what \<open>OCR.process\<close> settles to, whether
  \<open>Parser.parse\<close> returns, whether \<open>Storage.save\<close> resolves, and whether the
  cancel button is pressed while the file is being processed (its handler sets
  \<open>batchCancelled\<close>, which the loop reads before the next file). The function
  returns the final values of its counters \<open>processed\<close> and \<open>saved\<close> with the
  state; \<open>stored\<close> is the raw text of every scan given to \<open>Storage.save\<close>.
  The progress display and the reload of the history are left out.
\<close>

record batch_file =
  reads :: bool
  ocr_text :: "js_error + string"
  parses :: bool
  saves :: bool
  cancel_pressed :: bool

datatype toast =
    ToastCancelled nat nat       \<comment> \<open>\<^verbatim>\<open>`Batch cancelled. Saved ${saved}/${processed} images.`\<close>\<close>
  | ToastComplete nat nat        \<comment> \<open>\<^verbatim>\<open>`Batch complete! Saved ${saved}/${files.length} images.`\<close>\<close>

record app_state =
  batchCancelled :: bool
  stored :: "string list"
  toasts :: "toast list"

text \<open>The body of the \<open>try\<close> for one file: True when it reached \<open>saved++\<close>.\<close>

definition batchItem :: "batch_file \<Rightarrow> app_state \<Rightarrow> bool \<times> app_state" where
  "batchItem f a =
     (let a1 = a\<lparr>batchCancelled := batchCancelled a \<or> cancel_pressed f\<rparr>
      in if \<not> reads f then (False, a1)
         else (case ocr_text f of
                 Inl err \<Rightarrow> (False, a1)
               | Inr text \<Rightarrow>
                   if \<not> parses f then (False, a1)
                   else if \<not> saves f then (False, a1)
                   else (True, a1\<lparr>stored := stored a1 @ [text]\<rparr>)))"

fun batchLoop :: "batch_file list \<Rightarrow> nat \<Rightarrow> nat \<Rightarrow> app_state \<Rightarrow> nat \<times> nat \<times> app_state" where
  "batchLoop [] processed saved a = (processed, saved, a)"
| "batchLoop (f # fs) processed saved a =
     (if batchCancelled a
      then (processed, saved, a\<lparr>toasts := toasts a @ [ToastCancelled saved processed]\<rparr>)
      else (case batchItem f a of
              (ok, a1) \<Rightarrow> batchLoop fs (processed + 1) (if ok then saved + 1 else saved) a1))"

definition handleBatchFiles :: "batch_file list \<Rightarrow> app_state \<Rightarrow> nat \<times> nat \<times> app_state" where
  "handleBatchFiles files a =
     (if length files = 0 then (0, 0, a)
      else (case batchLoop files 0 0 (a\<lparr>batchCancelled := False\<rparr>) of
              (processed, saved, a1) \<Rightarrow>
                (processed, saved,
                 if \<not> batchCancelled a1
                 then a1\<lparr>toasts := toasts a1 @ [ToastComplete saved (length files)]\<rparr>
                 else a1)))"

text \<open>
  For the statement: a file that is processed without error, its raw text, and the
  files the loop starts on (all up to the first during which cancel is pressed).
\<close>

definition item_ok :: "batch_file \<Rightarrow> bool" where
  "item_ok f = (reads f \<and> (case ocr_text f of Inl err \<Rightarrow> False | Inr text \<Rightarrow> True) \<and> parses f \<and> saves f)"

definition raw_text :: "batch_file \<Rightarrow> string" where
  "raw_text f = (case ocr_text f of Inl err \<Rightarrow> [] | Inr text \<Rightarrow> text)"

fun started :: "batch_file list \<Rightarrow> batch_file list" where
  "started [] = []"
| "started (f # fs) = f # (if cancel_pressed f then [] else started fs)"

definition good_file :: "string \<Rightarrow> batch_file" where
  "good_file t = \<lparr>reads = True, ocr_text = Inr t, parses = True, saves = True, cancel_pressed = False\<rparr>"

definition empty_app :: app_state where
  "empty_app = \<lparr>batchCancelled = False, stored = [], toasts = []\<rparr>"

section \<open>Properties of the dispatch\<close>

subsection \<open>How each function changes the log\<close>

lemma calls_emit: "calls e (emit e' s) = calls e s + (if e = e' then 1 else 0)"
  by (simp add: calls_def emit_def)

lemma calls_report: "calls e (report d t s) = calls e s + (if onProgress d \<and> e = Progress t then 1 else 0)"
  by (simp add: report_def calls_emit)

lemma calls_logProgress: "\<not> is_progress e \<Longrightarrow> calls e (logProgress d ps s) = calls e s"
  unfolding logProgress_def by (induction ps arbitrary: s) (auto simp: calls_report)

lemma calls_logProgress_txt: "(\<And>p. t \<noteq> TxtPercent p) \<Longrightarrow> calls (Progress t) (logProgress d ps s) = calls (Progress t) s"
  unfolding logProgress_def by (induction ps arbitrary: s) (auto simp: calls_report)

lemma calls_update [simp]:
  "calls e (s\<lparr>tesseractDefined := b\<rparr>) = calls e s"
  "calls e (s\<lparr>isOnline := c\<rparr>) = calls e s"
  by (simp_all add: calls_def)

lemma tesseract_emit [simp]: "tesseractDefined (emit e s) = tesseractDefined s"
  by (simp add: emit_def)

lemma tesseract_report [simp]: "tesseractDefined (report d t s) = tesseractDefined s"
  by (simp add: report_def)

lemma tesseract_logProgress [simp]: "tesseractDefined (logProgress d ps s) = tesseractDefined s"
  unfolding logProgress_def by (induction ps arbitrary: s) auto

lemmas ocr_defs = process_def processOnline_def processOffline_def loadTesseract_def enhanceImage_def Let_def
lemmas ocr_calls = calls_emit calls_report calls_logProgress calls_logProgress_txt
lemmas ocr_splits = option.splits recognize_result.splits fetch_result.splits


lemma processOffline_calls:
  "calls CallProcessOffline (snd (processOffline d s)) = calls CallProcessOffline s + 1"
  "calls CallFetch (snd (processOffline d s)) = calls CallFetch s"
  "calls CallProcessOnline (snd (processOffline d s)) = calls CallProcessOnline s"
  "calls (Progress TxtOnlineFailed) (snd (processOffline d s)) = calls (Progress TxtOnlineFailed) s"
  "calls CallRecognize (snd (processOffline d s)) =
     calls CallRecognize s +
       (if (tesseractDefined s \<or> script_loads d) \<and> raster d \<noteq> None \<and> encodes d then 1 else 0)"
  unfolding ocr_defs by (auto simp: ocr_calls split: ocr_splits)





lemmas ev_defs = ocr_defs report_def emit_def calls_def logProgress_def idle_def
  label_photo_def response_ok_def parsedText_def serviceMessage_def

subsection \<open>Remote failure\<close>



subsection \<open>Offline start\<close>

text \<open>
  Claim C5. When \<open>navigator.onLine\<close> is false at the start of a dispatch, no
  request to the OCR endpoint is made and \<open>processOnline\<close> is not entered:
  \<open>process\<close> is \<open>processOffline\<close>, entered once, after the progress text
  'Offline mode - using local OCR...'.
\<close>

theorem offline_start_never_calls_remote:
  assumes "\<not> navigator_onLine d"
  shows "calls CallFetch (snd (process d s)) = calls CallFetch s
   \<and> calls CallProcessOnline (snd (process d s)) = calls CallProcessOnline s
   \<and> calls CallProcessOffline (snd (process d s)) = calls CallProcessOffline s + 1
   \<and> process d s = processOffline d (report d TxtOfflineMode (s\<lparr>isOnline := False\<rparr>))"
proof -
  have route: "process d s = processOffline d (report d TxtOfflineMode (s\<lparr>isOnline := False\<rparr>))"
    using assms by (simp add: process_def)
  have "calls CallFetch (snd (process d s)) = calls CallFetch s"
    and "calls CallProcessOnline (snd (process d s)) = calls CallProcessOnline s"
    and "calls CallProcessOffline (snd (process d s)) = calls CallProcessOffline s + 1"
    unfolding route by (simp_all add: processOffline_calls calls_report)
  with route show ?thesis by blast
qed

theorem offline_start_never_calls_remote_witness:
  "\<not> navigator_onLine (label_photo\<lparr>navigator_onLine := False\<rparr>)
   \<and> calls CallFetch (snd (process (label_photo\<lparr>navigator_onLine := False\<rparr>) idle)) = 0
   \<and> fst (process (label_photo\<lparr>navigator_onLine := False\<rparr>) idle) = Inr ''LOT 42''"
  using offline_start_never_calls_remote [of "label_photo\<lparr>navigator_onLine := False\<rparr>" idle]
  by (simp add: ev_defs)

subsection \<open>Enhancement failure\<close>

text \<open>
  Claim C7, as stated, fails: \<open>enhanceImage\<close> is called inside each path, not
  before the routing, and the \<open>catch\<close> of \<open>process\<close> takes its rejection
  for a remote failure. Online, with a file that does not decode, the dispatch goes on
  into the local path, appends the engine script, calls \<open>enhanceImage\<close> a second
  time and ends with 'Offline OCR failed: Failed to load image', not with the error of
  the enhancement.
\<close>

theorem enhancement_failure_aborts_counterexample:
  "raster (label_photo\<lparr>raster := None\<rparr>) = None
   \<and> fst (enhanceImage (label_photo\<lparr>raster := None\<rparr>) idle) = Inl ImageLoadFailed
   \<and> fst (process (label_photo\<lparr>raster := None\<rparr>) idle) = Inl (OfflineOcrFailed ImageLoadFailed)
   \<and> fst (process (label_photo\<lparr>raster := None\<rparr>) idle) \<noteq> Inl ImageLoadFailed
   \<and> events (snd (process (label_photo\<lparr>raster := None\<rparr>) idle)) =
       [CallProcessOnline, Progress TxtEnhancing, CallEnhanceImage,
        Progress TxtOnlineFailed, CallProcessOffline, Progress TxtLoadingEngine,
        ScriptAppended, Progress TxtProcessingOffline, CallEnhanceImage]"
  by (simp add: ev_defs)

text \<open>
  Claim C7, amended. When the enhancement of the file fails with error \<open>e\<close>, neither
  the request to the OCR endpoint nor \<open>Tesseract.recognize\<close> is made, and the
  dispatch ends in an error. The local path is entered once all the same (after the
  failed remote path when the dispatch started online); the enhancement is tried in each
  path that reaches it; the error raised is \<open>e\<close> wrapped as 'Offline OCR failed: ...',
  or 'Failed to load Tesseract.js' when the engine was not loaded and its script fails.
\<close>

theorem enhancement_failure_ends_in_local_error:
  assumes "fst (enhanceImage d s) = Inl e"
  shows "calls CallFetch (snd (process d s)) = calls CallFetch s
    \<and> calls CallRecognize (snd (process d s)) = calls CallRecognize s
    \<and> calls CallProcessOffline (snd (process d s)) = calls CallProcessOffline s + 1
    \<and> calls CallEnhanceImage (snd (process d s)) =
        calls CallEnhanceImage s + (if navigator_onLine d then 1 else 0)
          + (if tesseractDefined s \<or> script_loads d then 1 else 0)
    \<and> fst (process d s) =
        (if tesseractDefined s \<or> script_loads d then Inl (OfflineOcrFailed e)
         else Inl TesseractLoadFailed)"
  using assms unfolding ocr_defs
  by (auto simp: ocr_calls split: ocr_splits if_splits)

theorem enhancement_failure_ends_in_local_error_witness:
  "fst (enhanceImage (label_photo\<lparr>encodes := False\<rparr>) idle) = Inl ProcessingFailed
   \<and> fst (process (label_photo\<lparr>encodes := False\<rparr>) idle) = Inl (OfflineOcrFailed ProcessingFailed)
   \<and> calls CallFetch (snd (process (label_photo\<lparr>encodes := False\<rparr>) idle)) = 0
   \<and> calls CallEnhanceImage (snd (process (label_photo\<lparr>encodes := False\<rparr>) idle)) = 2"
  using enhancement_failure_ends_in_local_error
    [of "label_photo\<lparr>encodes := False\<rparr>" idle ProcessingFailed]
  by (simp add: ev_defs)

subsection \<open>What the caller receives\<close>




section \<open>Properties of the service worker\<close>

subsection \<open>The Cache API\<close>

lemma keys_cache_put [simp]: "caches_keys (cache_put name url r cs) = caches_keys cs"
  by (induction cs) (auto simp: caches_keys_def cache_put_def)

lemma keys_caches_open:
  "caches_keys (caches_open name cs) =
     (if name \<in> set (caches_keys cs) then caches_keys cs else caches_keys cs @ [name])"
  by (simp add: caches_open_def caches_keys_def)

lemma caches_open_idem: "name \<in> set (caches_keys cs) \<Longrightarrow> caches_open name cs = cs"
  by (simp add: caches_open_def)

lemma open_has_name [simp]: "name \<in> set (caches_keys (caches_open name cs))"
  by (simp add: keys_caches_open)

lemma map_of_caches_open:
  "map_of (caches_open name cs) n =
     (if n = name \<and> name \<notin> set (caches_keys cs) then Some Map.empty else map_of cs n)"
proof (cases "name \<in> set (caches_keys cs)")
  case True
  then show ?thesis by (simp add: caches_open_def)
next
  case False
  then have "map_of cs name = None"
    by (simp add: caches_keys_def map_of_eq_None_iff)
  then show ?thesis
    using False by (auto simp: caches_open_def map_add_def split: option.splits)
qed

lemma map_of_cache_put:
  "map_of (cache_put name url r cs) n =
     (if n = name then map_option (\<lambda>c. c(url \<mapsto> r)) (map_of cs n) else map_of cs n)"
  by (induction cs) (auto simp: cache_put_def fun_upd_def)

lemma lookup_cache_put:
  "name \<in> set (caches_keys cs) \<Longrightarrow>
   cache_lookup n u (cache_put name url r cs) =
     (if n = name \<and> u = url then Some r else cache_lookup n u cs)"
  by (auto simp: cache_lookup_def map_of_cache_put caches_keys_def map_of_eq_None_iff
      split: option.splits)

lemma keys_fold_put [simp]:
  "caches_keys (fold (\<lambda>(url, r). cache_put name url r) rs cs) = caches_keys cs"
  by (induction rs arbitrary: cs) auto

lemma fetch_all_None: "fetch_all net urls = None \<longleftrightarrow> (\<exists>u \<in> set urls. fetch_ok net u = None)"
  by (induction urls) (auto split: option.splits)

lemma lookup_fold_put:
  "name \<in> set (caches_keys cs) \<Longrightarrow> fetch_all net urls = Some rs \<Longrightarrow>
   cache_lookup n u (fold (\<lambda>(url, r). cache_put name url r) rs cs) =
     (if n = name \<and> u \<in> set urls then fetch_ok net u else cache_lookup n u cs)"
proof (induction urls arbitrary: rs cs)
  case Nil
  then show ?case by simp
next
  case (Cons v vs)
  from Cons.prems(2) obtain r rs' where
    r: "fetch_ok net v = Some r" and rs': "fetch_all net vs = Some rs'" and rs: "rs = (v, r) # rs'"
    by (auto split: option.splits)
  have "name \<in> set (caches_keys (cache_put name v r cs))"
    using Cons.prems(1) by simp
  from Cons.IH [OF this rs'] show ?case
    using Cons.prems(1) r by (auto simp: rs lookup_cache_put)
qed

lemma keys_add_settled [simp]: "caches_keys (add_settled net name url cs) = caches_keys cs"
  by (simp add: add_settled_def cache_add_def split: option.splits)

lemma keys_fold_add [simp]: "caches_keys (fold (add_settled net name) urls cs) = caches_keys cs"
  by (induction urls arbitrary: cs) auto

lemma lookup_add_settled:
  "name \<in> set (caches_keys cs) \<Longrightarrow>
   cache_lookup n u (add_settled net name url cs) =
     (if n = name \<and> u = url \<and> fetch_ok net u \<noteq> None then fetch_ok net u else cache_lookup n u cs)"
  by (auto simp: add_settled_def cache_add_def lookup_cache_put split: option.splits)

lemma lookup_fold_add:
  "name \<in> set (caches_keys cs) \<Longrightarrow>
   cache_lookup n u (fold (add_settled net name) urls cs) =
     (if n = name \<and> u \<in> set urls \<and> fetch_ok net u \<noteq> None then fetch_ok net u
      else cache_lookup n u cs)"
proof (induction urls arbitrary: cs)
  case Nil
  then show ?case by simp
next
  case (Cons v vs)
  have "name \<in> set (caches_keys (add_settled net name v cs))"
    using Cons.prems by simp
  from Cons.IH [OF this] show ?case
    using Cons.prems by (auto simp: lookup_add_settled)
qed

lemma fold_caches_delete:
  "fold caches_delete ks cs = filter (\<lambda>(n, c). n \<notin> set ks) cs"
  by (induction ks arbitrary: cs) (auto simp: caches_delete_def intro!: filter_cong)

lemma activate_handler_eq:
  "activate_handler name cs = filter (\<lambda>(n, c). n = name) cs"
  unfolding activate_handler_def fold_caches_delete caches_keys_def
  by (rule filter_cong) (auto simp: rev_image_eqI)

lemma keys_activate:
  "caches_keys (activate_handler name cs) = filter (\<lambda>k. k = name) (caches_keys cs)"
  by (simp add: activate_handler_eq caches_keys_def filter_map comp_def case_prod_unfold)

lemma filter_eq_distinct:
  "distinct (map fst cs) \<Longrightarrow> map_of cs name = Some c \<Longrightarrow> filter (\<lambda>(n, c). n = name) cs = [(name, c)]"
proof (induction cs)
  case Nil
  then show ?case by simp
next
  case (Cons p ps)
  obtain n c' where p: "p = (n, c')" by (cases p)
  show ?case
  proof (cases "n = name")
    case True
    with Cons.prems p have "c' = c" by simp
    moreover have "filter (\<lambda>(n, c). n = name) ps = []"
      using Cons.prems(1) True p by (auto simp: filter_empty_conv rev_image_eqI)
    ultimately show ?thesis using True p by simp
  next
    case False
    with Cons p show ?thesis by simp
  qed
qed

lemma activate_distinct:
  "distinct (caches_keys cs) \<Longrightarrow> map_of cs name = Some c \<Longrightarrow> activate_handler name cs = [(name, c)]"
  by (simp add: activate_handler_eq filter_eq_distinct caches_keys_def)

lemma map_of_key: "name \<in> set (caches_keys cs) \<Longrightarrow> \<exists>c. map_of cs name = Some c"
  by (induction cs) (auto simp: caches_keys_def)

lemma map_of_no_key: "name \<notin> set (caches_keys cs) \<Longrightarrow> map_of cs name = None"
  by (induction cs) (auto simp: caches_keys_def)

lemma lookup_single_activate:
  assumes "distinct (caches_keys cs)" and "name \<in> set (caches_keys cs)"
  shows "cache_lookup name u (activate_handler name cs) = cache_lookup name u cs"
    and "caches_match u (activate_handler name cs) = cache_lookup name u cs"
    and "caches_keys (activate_handler name cs) = [name]"
proof -
  from assms(2) obtain c where c: "map_of cs name = Some c"
    using map_of_key by blast
  with assms(1) have a: "activate_handler name cs = [(name, c)]" by (simp add: activate_distinct)
  show "cache_lookup name u (activate_handler name cs) = cache_lookup name u cs"
    by (simp add: a c cache_lookup_def)
  show "caches_match u (activate_handler name cs) = cache_lookup name u cs"
    by (simp add: a c cache_lookup_def split: option.splits)
  show "caches_keys (activate_handler name cs) = [name]"
    by (simp add: a caches_keys_def)
qed

lemma distinct_open: "distinct (caches_keys cs) \<Longrightarrow> distinct (caches_keys (caches_open name cs))"
  by (simp add: keys_caches_open)

lemma lookup_open_new:
  "cache_lookup name u (caches_open name cs) = cache_lookup name u cs"
  by (auto simp: cache_lookup_def map_of_caches_open map_of_no_key split: option.splits)

lemma keys_install:
  "caches_keys (snd (install_handler name net cs)) = caches_keys (caches_open name cs)"
  by (simp add: install_handler_def Let_def cache_addAll_def caches_open_idem split: option.splits)


lemma install_succeeds:
  assumes "\<forall>u \<in> set CACHE_URLS. fetch_ok net u \<noteq> None"
  obtains rs where "fetch_all net CACHE_URLS = Some rs"
    and "install_handler name net cs =
      (True, fold (add_settled net name) TESSERACT_URLS
         (fold (\<lambda>(url, r). cache_put name url r) rs (caches_open name cs)))"
proof -
  from assms have "fetch_all net CACHE_URLS \<noteq> None"
    by (simp add: fetch_all_None)
  then obtain rs where rs: "fetch_all net CACHE_URLS = Some rs" by auto
  have "install_handler name net cs =
      (True, fold (add_settled net name) TESSERACT_URLS
         (fold (\<lambda>(url, r). cache_put name url r) rs (caches_open name cs)))"
    by (simp add: install_handler_def cache_addAll_def Let_def rs caches_open_idem)
  with rs show ?thesis by (rule that)
qed

lemma urls_disjoint: "set CACHE_URLS \<inter> set TESSERACT_URLS = {}"
  by (simp add: CACHE_URLS_def TESSERACT_URLS_def)

lemma install_lookup:
  assumes "\<forall>u \<in> set CACHE_URLS. fetch_ok net u \<noteq> None"
  shows "fst (install_handler name net cs)"
    and "caches_keys (snd (install_handler name net cs)) = caches_keys (caches_open name cs)"
    and "cache_lookup name u (snd (install_handler name net cs)) =
      (if u \<in> set CACHE_URLS \<or> (u \<in> set TESSERACT_URLS \<and> fetch_ok net u \<noteq> None)
       then fetch_ok net u else cache_lookup name u cs)"
proof -
  from assms obtain rs where rs: "fetch_all net CACHE_URLS = Some rs"
    and eq: "install_handler name net cs =
      (True, fold (add_settled net name) TESSERACT_URLS
         (fold (\<lambda>(url, r). cache_put name url r) rs (caches_open name cs)))"
    by (rule install_succeeds)
  show "fst (install_handler name net cs)" by (simp add: eq)
  show "caches_keys (snd (install_handler name net cs)) = caches_keys (caches_open name cs)"
    by (simp add: eq)
  have "u \<in> set CACHE_URLS \<Longrightarrow> u \<notin> set TESSERACT_URLS"
    using urls_disjoint by auto
  then show "cache_lookup name u (snd (install_handler name net cs)) =
      (if u \<in> set CACHE_URLS \<or> (u \<in> set TESSERACT_URLS \<and> fetch_ok net u \<noteq> None)
       then fetch_ok net u else cache_lookup name u cs)"
    by (auto simp: eq lookup_fold_add lookup_fold_put [OF _ rs] lookup_open_new)
qed





lemma url_get_request [simp]: "req_url (get_request u) = u"
  by (simp add: get_request_def)

subsection \<open>Activation\<close>

text \<open>
  Claim C3. The activate handler deletes every cache whose name is not the worker's
  \<open>CACHE_NAME\<close>: the names left are those equal to it. When the cache of that
  name exists (names are distinct in CacheStorage), exactly that one is left, with its
  entries; this is the case after every install that succeeded, and the worker is then
  the active one. Activating v7 while v5 and v6 exist leaves v7 alone.
\<close>

theorem activation_leaves_one_generation:
  "caches_keys (activate_handler name cs) = filter (\<lambda>k. k = name) (caches_keys cs)
   \<and> (distinct (caches_keys cs) \<and> name \<in> set (caches_keys cs) \<longrightarrow>
        caches_keys (activate_handler name cs) = [name]
        \<and> cache_lookup name u (activate_handler name cs) = cache_lookup name u cs)
   \<and> (distinct (caches_keys (storage w)) \<and> fst (install_handler name net (storage w)) \<longrightarrow>
        caches_keys (storage (update_worker name net w)) = [name]
        \<and> active (update_worker name net w) = Some name)
   \<and> caches_keys (activate_handler ''v7'' [(''v5'', c5), (''v6'', c6), (''v7'', c7)]) = [''v7'']"
proof -
  have "caches_keys (storage (update_worker name net w)) = [name]
        \<and> active (update_worker name net w) = Some name"
    if d: "distinct (caches_keys (storage w))" and i: "fst (install_handler name net (storage w))"
  proof -
    have k: "caches_keys (snd (install_handler name net (storage w))) = caches_keys (caches_open name (storage w))"
      by (rule keys_install)
    have "distinct (caches_keys (snd (install_handler name net (storage w))))"
      and "name \<in> set (caches_keys (snd (install_handler name net (storage w))))"
      using d by (simp_all add: k distinct_open)
    then have "caches_keys (activate_handler name (snd (install_handler name net (storage w)))) = [name]"
      by (rule lookup_single_activate(3))
    then show ?thesis
      using i by (cases "install_handler name net (storage w)") (simp add: update_worker_def)
  qed
  then have installed: "distinct (caches_keys (storage w)) \<and> fst (install_handler name net (storage w)) \<longrightarrow>
        caches_keys (storage (update_worker name net w)) = [name]
        \<and> active (update_worker name net w) = Some name"
    by blast
  have general: "caches_keys (activate_handler name cs) = filter (\<lambda>k. k = name) (caches_keys cs)"
    by (rule keys_activate)
  have present: "distinct (caches_keys cs) \<and> name \<in> set (caches_keys cs) \<longrightarrow>
        caches_keys (activate_handler name cs) = [name]
        \<and> cache_lookup name u (activate_handler name cs) = cache_lookup name u cs"
    using lookup_single_activate(1,3) [of cs name] by blast
  have scenario: "caches_keys (activate_handler ''v7'' [(''v5'', c5), (''v6'', c6), (''v7'', c7)]) = [''v7'']"
    unfolding keys_activate by (simp add: caches_keys_def)
  from general present installed scenario show ?thesis
    by (intro conjI)
qed

theorem activation_leaves_one_generation_witness:
  "distinct (caches_keys (storage release_v5))
   \<and> ''label-scanner-v5'' \<in> set (caches_keys (storage release_v5))
   \<and> caches_keys (activate_handler ''label-scanner-v5'' (storage release_v5)) = [''label-scanner-v5'']
   \<and> fst (install_handler CACHE_NAME all_up (storage release_v5))
   \<and> caches_keys (storage (update_worker CACHE_NAME all_up release_v5)) = [CACHE_NAME]
   \<and> active (update_worker CACHE_NAME all_up release_v5) = Some CACHE_NAME"
proof -
  have d: "distinct (caches_keys (storage release_v5))"
    by (simp add: release_v5_def caches_keys_def)
  have m: "''label-scanner-v5'' \<in> set (caches_keys (storage release_v5))"
    by (simp add: release_v5_def caches_keys_def)
  have i: "fst (install_handler CACHE_NAME all_up (storage release_v5))"
    by (rule install_lookup(1)) (simp add: all_up_def fetch_ok_def response_ok_def)
  from d m i
    activation_leaves_one_generation [of "''label-scanner-v5''" "storage release_v5" "''./''" release_v5 all_up]
    activation_leaves_one_generation [of CACHE_NAME "storage release_v5" "''./''" release_v5 all_up]
  show ?thesis by blast
qed

subsection \<open>Install\<close>




lemma method_get_request [simp]: "req_method (get_request u) = ''GET''"
  by (simp add: get_request_def)

subsection \<open>Fetch\<close>



section \<open>Properties of the loader under interleaving\<close>

text \<open>
  The sequential \<open>loadTesseract\<close> is one caller's steps of the interleaved loader:
  the executor, then the \<open>onload\<close> or the \<open>onerror\<close> of its script.
\<close>

lemma loadTesseract_steps:
  "snd (loadTesseract d s) =
     (if tesseractDefined s then s
      else if script_loads d then loader_step ScriptLoaded (loadTesseract_begin s)
      else loader_step ScriptFailed (loadTesseract_begin s))"
  by (simp add: loadTesseract_def loadTesseract_begin_def Let_def)

lemma loader_run_Cons: "loader_run (e # evs) s = loader_run evs (loader_step e s)"
  by (simp add: loader_run_def)

lemma loader_no_load_once_defined:
  "tesseractDefined s \<Longrightarrow> calls ScriptAppended (loader_run evs s) = calls ScriptAppended s"
proof (induction evs arbitrary: s)
  case Nil
  then show ?case by (simp add: loader_run_def)
next
  case (Cons e evs)
  then show ?case by (cases e) (simp_all add: loader_run_Cons)
qed

text \<open>
  Claim C4, as stated, fails: the loader keeps no record of a load in flight. Two
  callers that enter before any script has loaded each append a script element.
\<close>

theorem concurrent_callers_load_twice_counterexample:
  "\<not> tesseractDefined idle
   \<and> \<not> tesseractDefined (loader_run [CallerEnters] idle)
   \<and> \<not> tesseractDefined (loader_run [CallerEnters, CallerEnters] idle)
   \<and> calls ScriptAppended (loader_run [CallerEnters, CallerEnters] idle) = 2"
  by (simp add: loader_run_def loadTesseract_begin_def idle_def emit_def calls_def)

text \<open>
  Claim C4, amended. Every caller that enters the loader before a script has loaded
  starts a load of its own: the number of script elements appended is the number of
  callers that entered before the first \<open>onload\<close>. Once Tesseract is defined, no
  caller starts a load.
\<close>

theorem loads_started:
  "calls ScriptAppended (loader_run evs s) =
     calls ScriptAppended s +
       (if tesseractDefined s then 0
        else length (filter (\<lambda>e. e = CallerEnters) (takeWhile (\<lambda>e. e \<noteq> ScriptLoaded) evs)))"
proof (induction evs arbitrary: s)
  case Nil
  then show ?case by (simp add: loader_run_def)
next
  case (Cons e evs)
  show ?case
  proof (cases e)
    case CallerEnters
    then show ?thesis
      by (simp add: loader_run_Cons Cons.IH loadTesseract_begin_def calls_emit)
  next
    case ScriptLoaded
    then show ?thesis
      by (simp add: loader_run_Cons loader_no_load_once_defined)
  next
    case ScriptFailed
    then show ?thesis
      by (simp add: loader_run_Cons Cons.IH)
  qed
qed

theorem loads_started_witness:
  "calls ScriptAppended
     (loader_run [CallerEnters, CallerEnters, CallerEnters, ScriptLoaded, ScriptLoaded, ScriptFailed, CallerEnters] idle) = 3"
  using loads_started [of "[CallerEnters, CallerEnters, CallerEnters, ScriptLoaded, ScriptLoaded, ScriptFailed, CallerEnters]" idle]
  by (simp add: idle_def calls_def)

section \<open>Properties of the batch loop\<close>

lemma batchItem_cases:
  "batchItem f a =
     (item_ok f,
      a\<lparr>batchCancelled := batchCancelled a \<or> cancel_pressed f,
        stored := stored a @ (if item_ok f then [raw_text f] else [])\<rparr>)"
  by (auto simp: batchItem_def item_ok_def raw_text_def Let_def split: sum.splits)

lemma batchLoop_counts:
  "\<not> batchCancelled a \<Longrightarrow>
   fst (batchLoop fs processed saved a) = processed + length (started fs)
   \<and> fst (snd (batchLoop fs processed saved a)) = saved + length (filter item_ok (started fs))
   \<and> stored (snd (snd (batchLoop fs processed saved a))) =
       stored a @ map raw_text (filter item_ok (started fs))
   \<and> batchCancelled (snd (snd (batchLoop fs processed saved a))) = (\<exists>f \<in> set fs. cancel_pressed f)"
proof (induction fs arbitrary: processed saved a)
  case Nil
  then show ?case by simp
next
  case (Cons f fs)
  let ?a1 = "snd (batchItem f a)"
  show ?case
  proof (cases "cancel_pressed f")
    case True
    then have c: "batchCancelled ?a1" by (simp add: batchItem_cases)
    have stop: "batchLoop fs p sv ?a1 = (p, sv, ?a1) \<or>
      batchLoop fs p sv ?a1 = (p, sv, ?a1\<lparr>toasts := toasts ?a1 @ [ToastCancelled sv p]\<rparr>)" for p sv
      using c by (cases fs) simp_all
    show ?thesis
      using Cons.prems True stop [of "processed + 1" "if item_ok f then saved + 1 else saved"]
      by (auto simp: batchItem_cases)
  next
    case False
    then have "\<not> batchCancelled ?a1"
      using Cons.prems by (simp add: batchItem_cases)
    from Cons.IH [OF this, of "processed + 1" "if item_ok f then saved + 1 else saved"]
    show ?thesis
      using Cons.prems False by (simp add: batchItem_cases)
  qed
qed

text \<open>
  Claim C10. An error in one file (reading, OCR, parsing or saving) is caught inside
  the loop, which goes on with the next file: the loop starts on every file up to the
  first during which cancel is pressed (on all of them when it never is), \<open>saved\<close>
  ends as the number of those files processed without error, and exactly their scans
  were given to the storage, in order.
\<close>

theorem batch_survives_item_errors:
  "fst (handleBatchFiles files a) = length (started files)
   \<and> fst (snd (handleBatchFiles files a)) = length (filter item_ok (started files))
   \<and> stored (snd (snd (handleBatchFiles files a))) = stored a @ map raw_text (filter item_ok (started files))
   \<and> ((\<forall>f \<in> set files. \<not> cancel_pressed f) \<longrightarrow>
        fst (handleBatchFiles files a) = length files
        \<and> fst (snd (handleBatchFiles files a)) = length (filter item_ok files))"
proof (cases "files = []")
  case True
  then show ?thesis by (simp add: handleBatchFiles_def)
next
  case False
  have nc: "\<not> batchCancelled (a\<lparr>batchCancelled := False\<rparr>)" by simp
  have all: "started files = files" if "\<forall>f \<in> set files. \<not> cancel_pressed f"
    using that by (induction files) auto
  show ?thesis
    using False batchLoop_counts [OF nc, of files 0 0] all
    by (auto simp: handleBatchFiles_def split: prod.splits)
qed

theorem batch_survives_item_errors_witness:
  "list_all (\<lambda>f. \<not> cancel_pressed f)
     [good_file ''A'', (good_file ''B'')\<lparr>ocr_text := Inl TesseractLoadFailed\<rparr>,
      (good_file ''C'')\<lparr>saves := False\<rparr>, good_file ''D'']
   \<and> handleBatchFiles
       [good_file ''A'', (good_file ''B'')\<lparr>ocr_text := Inl TesseractLoadFailed\<rparr>,
        (good_file ''C'')\<lparr>saves := False\<rparr>, good_file ''D''] empty_app
      = (4, 2, \<lparr>batchCancelled = False, stored = [''A'', ''D''], toasts = [ToastComplete 2 4]\<rparr>)
   \<and> fst (snd (handleBatchFiles
       [good_file ''A'', (good_file ''B'')\<lparr>reads := False\<rparr>,
        (good_file ''C'')\<lparr>cancel_pressed := True\<rparr>, good_file ''D''] empty_app)) = 2"
  using batch_survives_item_errors
      [of "[good_file ''A'', (good_file ''B'')\<lparr>ocr_text := Inl TesseractLoadFailed\<rparr>,
            (good_file ''C'')\<lparr>saves := False\<rparr>, good_file ''D'']" empty_app]
    batch_survives_item_errors
      [of "[good_file ''A'', (good_file ''B'')\<lparr>reads := False\<rparr>,
            (good_file ''C'')\<lparr>cancel_pressed := True\<rparr>, good_file ''D'']" empty_app]
  by (simp add: handleBatchFiles_def batchItem_def good_file_def empty_app_def item_ok_def)

section \<open>Properties of applyEnhancements\<close>












end
